theory Spec2Isabelle
  imports Complex_Main "HOL-Library.AList"
begin

section \<open>The sliding window (window.go)\<close>

text \<open>
  An outcome is a Go \<^verbatim>\<open>bool\<close>: \<^verbatim>\<open>success = true\<close>, \<^verbatim>\<open>failure = false\<close>.
  The zero value of the type is therefore \<open>failure\<close>, and that is what
  \<^verbatim>\<open>make([]outcome, size)\<close> fills a fresh buffer with.
\<close>

type_synonym outcome = bool

abbreviation (input) success :: outcome where "success \<equiv> True"
abbreviation (input) failure :: outcome where "failure \<equiv> False"

text \<open>
  The ring buffer. \<open>pos\<close>, \<open>count\<close> and \<open>fails\<close> are Go \<^verbatim>\<open>int\<close>s; they are kept as
  \<open>int\<close> here (a decrement below zero would show), and the invariant proved below
  bounds all three by the length of the buffer, so no machine arithmetic on them
  can wrap.
\<close>

record slidingWindow =
  buf :: "outcome list"
  pos :: int
  count :: int
  fails :: int

definition newSlidingWindow :: "int \<Rightarrow> slidingWindow" where
  "newSlidingWindow size0 =
     (let size1 = (if size0 \<le> 0 then 1 else size0)
      in \<lparr> buf = replicate (nat size1) failure, pos = 0, count = 0, fails = 0 \<rparr>)"

text \<open>
  \<^verbatim>\<open>record\<close>: the three steps of the source in their order. The read
  \<^verbatim>\<open>w.buf[w.pos]\<close> and the write \<^verbatim>\<open>w.buf[w.pos] = o\<close> would panic in Go for an index
  out of range; \<open>window_ok\<close> below (an invariant of every window the program
  builds) keeps \<open>pos\<close> inside the buffer, so neither ever does.
\<close>

definition record_outcome :: "slidingWindow \<Rightarrow> outcome \<Rightarrow> slidingWindow" where
  "record_outcome w o1 =
     (let w1 = (if count w = int (length (buf w))
                then (if buf w ! nat (pos w) = failure then w\<lparr>fails := fails w - 1\<rparr> else w)
                else w\<lparr>count := count w + 1\<rparr>);
          w2 = w1\<lparr>buf := (buf w1)[nat (pos w1) := o1]\<rparr>;
          w3 = (if o1 = failure then w2\<lparr>fails := fails w2 + 1\<rparr> else w2)
      in w3\<lparr>pos := (pos w3 + 1) mod int (length (buf w3))\<rparr>)"

text \<open>
  \<^verbatim>\<open>failureRate\<close> divides two \<^verbatim>\<open>float64\<close> conversions of integers. The quotient is
  modelled as the exact quotient of the two integers, a real number: the
  \<^verbatim>\<open>float64\<close> result is that number correctly rounded.
\<close>

definition failureRate :: "slidingWindow \<Rightarrow> real" where
  "failureRate w = (if count w = 0 then 0 else real_of_int (fails w) / real_of_int (count w))"

definition total :: "slidingWindow \<Rightarrow> int" where
  "total w = count w"

definition reset :: "slidingWindow \<Rightarrow> slidingWindow" where
  "reset w = w\<lparr>pos := 0, count := 0, fails := 0\<rparr>"

text \<open>A sequence of \<^verbatim>\<open>record\<close> calls, first call first.\<close>

definition record_all :: "slidingWindow \<Rightarrow> outcome list \<Rightarrow> slidingWindow" where
  "record_all w os = foldl record_outcome w os"

text \<open>The number of failures in a list of outcomes.\<close>

definition failures_in :: "outcome list \<Rightarrow> int" where
  "failures_in os = int (length (filter (\<lambda>o1. o1 = failure) os))"

text \<open>The last \<open>k\<close> outcomes of a history.\<close>

definition last_n :: "nat \<Rightarrow> 'a list \<Rightarrow> 'a list" where
  "last_n k os = drop (length os - k) os"


section \<open>The circuit breaker\<close>

subsection \<open>States, errors, contexts\<close>

datatype State = StateClosed | StateOpen | StateHalfOpen

text \<open>
  Go \<^verbatim>\<open>error\<close> values: the package's \<^verbatim>\<open>ErrCircuitOpen\<close>, the two errors a
  \<^verbatim>\<open>context.Context\<close> reports, and any error of the wrapped operation. A Go
  \<^verbatim>\<open>error\<close> that may be \<^verbatim>\<open>nil\<close> is an \<open>error option\<close>.
\<close>

datatype error = ErrCircuitOpen | Canceled | DeadlineExceeded | OpError string

text \<open>
  \<^verbatim>\<open>Execute\<close> reads the context once, after the operation has returned:
  \<open>Err ctx\<close> is what \<^verbatim>\<open>ctx.Err()\<close> returns at that moment.
\<close>

record Context =
  Err :: "error option"

text \<open>
  What the breaker does to the outside world, in order: the \<^verbatim>\<open>slog.Warn\<close> line and the
  \<^verbatim>\<open>OnStateChange\<close> call of \<^verbatim>\<open>setState\<close>, the call of the wrapped operation and the
  call of the fallback.
\<close>

datatype event =
    SlogWarn string State State
  | HookCalled string State State
  | OpInvoked
  | FallbackInvoked error

subsection \<open>Configuration\<close>

text \<open>
  \<open>'a\<close> is the type of the non-nil values of Go's \<^verbatim>\<open>any\<close>; an \<^verbatim>\<open>any\<close> is an
  \<open>'a option\<close>. \<^verbatim>\<open>RecoveryTimeout\<close> is a \<^verbatim>\<open>time.Duration\<close>, a number of nanoseconds.
  \<^verbatim>\<open>FailureThreshold\<close> is a \<^verbatim>\<open>float64\<close>, taken as the real number it denotes (the model
  has no NaN and no infinities). \<^verbatim>\<open>Fallback\<close> is \<open>None\<close> when the field is
  \<^verbatim>\<open>nil\<close>. \<^verbatim>\<open>OnStateChange\<close> returns nothing: the field says whether a hook is set,
  and each call of it is an \<open>event\<close>.
\<close>

record 'a Config =
  Name :: string
  WindowSize :: int
  FailureThreshold :: real
  MinRequests :: int
  RecoveryTimeout :: int
  ProbeCount :: int
  Fallback :: "(Context \<Rightarrow> error \<Rightarrow> 'a option \<times> error option) option"
  OnStateChange :: bool

definition Second :: int where
  "Second = 1000000000"

definition withDefaults :: "'a Config \<Rightarrow> 'a Config" where
  "withDefaults c =
     (let cfg1 = (if WindowSize c \<le> 0 then c\<lparr>WindowSize := 20\<rparr> else c);
          cfg2 = (if FailureThreshold cfg1 \<le> 0 then cfg1\<lparr>FailureThreshold := 0.5\<rparr> else cfg1);
          cfg3 = (if MinRequests cfg2 \<le> 0 then cfg2\<lparr>MinRequests := 5\<rparr> else cfg2);
          cfg4 = (if RecoveryTimeout cfg3 \<le> 0 then cfg3\<lparr>RecoveryTimeout := 30 * Second\<rparr> else cfg3);
          cfg5 = (if ProbeCount cfg4 \<le> 0 then cfg4\<lparr>ProbeCount := 3\<rparr> else cfg4)
      in cfg5)"

subsection \<open>The breaker and its clock\<close>

text \<open>
  A \<^verbatim>\<open>time.Time\<close> is an \<open>int\<close>, nanoseconds since the zero \<^verbatim>\<open>Time\<close>, and
  \<^verbatim>\<open>t.Sub(u)\<close> is \<open>t - u\<close> (Go saturates the difference at about 292 years).

  The field \<^verbatim>\<open>now\<close> is a clock function: two calls of it need not return the same
  time. \<open>now cb k\<close> is the time its \<open>k\<close>-th call returns and \<open>nowCalls cb\<close> counts
  the calls made so far, so that every \<^verbatim>\<open>cb.now()\<close> of the source is one
  \<open>readClock\<close>.

  The three lifetime counters are \<^verbatim>\<open>atomic.Int64\<close>; each grows by at most one per
  call of \<^verbatim>\<open>Execute\<close>, so they are unbounded integers here: 2^63 calls are out of
  reach of any run. \<open>events\<close> is the log of outside effects, oldest first.
\<close>

record 'a CircuitBreaker =
  cfg :: "'a Config"
  state :: State
  window :: slidingWindow
  openedAt :: int
  lastStateChange :: int
  probeSuccesses :: int
  totalRequests :: int
  totalSuccesses :: int
  totalFailures :: int
  now :: "nat \<Rightarrow> int"
  nowCalls :: nat
  events :: "event list"

definition readClock :: "'a CircuitBreaker \<Rightarrow> int \<times> 'a CircuitBreaker" where
  "readClock cb = (now cb (nowCalls cb), cb\<lparr>nowCalls := Suc (nowCalls cb)\<rparr>)"

text \<open>
  \<^verbatim>\<open>New\<close>: \<open>clk\<close> is the process clock \<^verbatim>\<open>time.Now\<close>; \<^verbatim>\<open>New\<close> reads it once, for
  \<^verbatim>\<open>lastStateChange\<close>. The fields the composite literal leaves out have their zero
  values.
\<close>

definition New :: "'a Config \<Rightarrow> (nat \<Rightarrow> int) \<Rightarrow> 'a CircuitBreaker" where
  "New c clk =
     (let cfg1 = withDefaults c
      in \<lparr> cfg = cfg1,
           state = StateClosed,
           window = newSlidingWindow (WindowSize cfg1),
           openedAt = 0,
           lastStateChange = clk 0,
           probeSuccesses = 0,
           totalRequests = 0,
           totalSuccesses = 0,
           totalFailures = 0,
           now = clk,
           nowCalls = 1,
           events = [] \<rparr>)"

definition setState :: "'a CircuitBreaker \<Rightarrow> State \<Rightarrow> 'a CircuitBreaker" where
  "setState cb to0 =
     (let from0 = state cb
      in if from0 = to0 then cb
         else
           (let cb1 = cb\<lparr>state := to0\<rparr>;
                (t, cb2) = readClock cb1;
                cb3 = cb2\<lparr>lastStateChange := t\<rparr>;
                cb4 = cb3\<lparr>events := events cb3 @ [SlogWarn (Name (cfg cb3)) from0 to0]\<rparr>
            in if OnStateChange (cfg cb4)
               then cb4\<lparr>events := events cb4 @ [HookCalled (Name (cfg cb4)) from0 to0]\<rparr>
               else cb4))"

text \<open>\<^verbatim>\<open>beforeCall\<close> returns the rejection (\<open>None\<close> for \<^verbatim>\<open>nil\<close>: the call is admitted).\<close>

definition beforeCall :: "'a CircuitBreaker \<Rightarrow> error option \<times> 'a CircuitBreaker" where
  "beforeCall cb =
     (case state cb of
        StateClosed \<Rightarrow> (None, cb)
      | StateOpen \<Rightarrow>
          (let (t, cb1) = readClock cb
           in if t - openedAt cb1 \<ge> RecoveryTimeout (cfg cb1)
              then (None, setState cb1 StateHalfOpen)
              else (Some ErrCircuitOpen, cb1))
      | StateHalfOpen \<Rightarrow> (None, cb))"

text \<open>
  \<^verbatim>\<open>afterCall\<close>. The \<^verbatim>\<open>switch\<close> has no case for \<^verbatim>\<open>StateOpen\<close>: nothing happens
  there.
\<close>

definition afterCall :: "'a CircuitBreaker \<Rightarrow> error option \<Rightarrow> 'a CircuitBreaker" where
  "afterCall cb err =
     (case state cb of
        StateClosed \<Rightarrow>
          (let cb1 = (if err \<noteq> None
                      then cb\<lparr>window := record_outcome (window cb) failure\<rparr>
                      else cb\<lparr>window := record_outcome (window cb) success\<rparr>)
           in if total (window cb1) \<ge> MinRequests (cfg cb1) \<and>
                 failureRate (window cb1) \<ge> FailureThreshold (cfg cb1)
              then (let cb2 = setState cb1 StateOpen;
                        (t, cb3) = readClock cb2
                    in cb3\<lparr>openedAt := t\<rparr>)
              else cb1)
      | StateHalfOpen \<Rightarrow>
          (if err \<noteq> None
           then (let cb1 = setState cb StateOpen;
                     (t, cb2) = readClock cb1;
                     cb3 = cb2\<lparr>openedAt := t\<rparr>
                 in cb3\<lparr>probeSuccesses := 0\<rparr>)
           else (let cb1 = cb\<lparr>probeSuccesses := probeSuccesses cb + 1\<rparr>
                 in if probeSuccesses cb1 \<ge> ProbeCount (cfg cb1)
                    then (let cb2 = setState cb1 StateClosed;
                              cb3 = cb2\<lparr>window := reset (window cb2)\<rparr>
                          in cb3\<lparr>probeSuccesses := 0\<rparr>)
                    else cb1))
      | StateOpen \<Rightarrow> cb)"

text \<open>
  \<^verbatim>\<open>Execute\<close> returns the pair \<^verbatim>\<open>(any, error)\<close> and the breaker after the call. The
  wrapped operation \<open>fn\<close> is a function of the context; that it ran is the event
  \<open>OpInvoked\<close>.
\<close>

definition Execute ::
  "'a CircuitBreaker \<Rightarrow> Context \<Rightarrow> (Context \<Rightarrow> 'a option \<times> error option) \<Rightarrow>
     ('a option \<times> error option) \<times> 'a CircuitBreaker" where
  "Execute cb ctx fn =
     (let cb1 = cb\<lparr>totalRequests := totalRequests cb + 1\<rparr>;
          (rejection, cb2) = beforeCall cb1
      in case rejection of
           Some err \<Rightarrow>
             (let cb3 = cb2\<lparr>totalFailures := totalFailures cb2 + 1\<rparr>
              in case Fallback (cfg cb3) of
                   Some fb \<Rightarrow> (fb ctx err, cb3\<lparr>events := events cb3 @ [FallbackInvoked err]\<rparr>)
                 | None \<Rightarrow> ((None, Some err), cb3))
         | None \<Rightarrow>
             (let cb3 = cb2\<lparr>events := events cb2 @ [OpInvoked]\<rparr>;
                  (result, err) = fn ctx
              in if err \<noteq> None \<and> Err ctx \<noteq> None
                 then ((result, err), cb3)
                 else (let cb4 = afterCall cb3 err;
                           cb5 = (if err \<noteq> None
                                  then cb4\<lparr>totalFailures := totalFailures cb4 + 1\<rparr>
                                  else cb4\<lparr>totalSuccesses := totalSuccesses cb4 + 1\<rparr>)
                       in ((result, err), cb5))))"

text \<open>\<^verbatim>\<open>State\<close>, the state query, with its lazy timeout check.\<close>

definition State :: "'a CircuitBreaker \<Rightarrow> State \<times> 'a CircuitBreaker" where
  "State cb =
     (if state cb = StateOpen
      then (let (t, cb1) = readClock cb
            in if t - openedAt cb1 \<ge> RecoveryTimeout (cfg cb1)
               then (let cb2 = setState cb1 StateHalfOpen in (state cb2, cb2))
               else (state cb1, cb1))
      else (state cb, cb))"

record Metrics =
  TotalRequests :: int
  TotalSuccesses :: int
  TotalFailures :: int
  CurrentState :: State
  LastStateChange :: int
  WindowFailureRate :: real

definition Metrics :: "'a CircuitBreaker \<Rightarrow> Metrics" where
  "Metrics cb =
     \<lparr> TotalRequests = totalRequests cb,
       TotalSuccesses = totalSuccesses cb,
       TotalFailures = totalFailures cb,
       CurrentState = state cb,
       LastStateChange = lastStateChange cb,
       WindowFailureRate = failureRate (window cb) \<rparr>"


text \<open>A sequence of \<^verbatim>\<open>Execute\<close> calls, each with its context and its operation.\<close>

type_synonym 'a call = "Context \<times> (Context \<Rightarrow> 'a option \<times> error option)"

fun run :: "'a CircuitBreaker \<Rightarrow> 'a call list \<Rightarrow> 'a CircuitBreaker" where
  "run cb [] = cb"
| "run cb (c # cs) = run (snd (Execute cb (fst c) (snd c))) cs"


section \<open>The registry (registry.go)\<close>

text \<open>
  The registry hands out pointers, and \<^verbatim>\<open>All\<close> returns a second Go map: which object
  a reference denotes is what its contract is about. So breakers and Go maps live in
  a store, a reference is an address (an index into the store), and allocation
  appends. A Go map from names to breaker pointers is an association list with one
  entry per key.
\<close>

type_synonym ptr = nat

type_synonym gomap = "(string \<times> ptr) list"

record 'a heap =
  breakerObjs :: "'a CircuitBreaker list"
  mapObjs :: "gomap list"

text \<open>Reading a map object, \<^verbatim>\<open>m[k] = v\<close> and \<^verbatim>\<open>delete(m, k)\<close> on the map at address \<open>a\<close>.\<close>

definition map_at :: "'a heap \<Rightarrow> nat \<Rightarrow> gomap" where
  "map_at h a = mapObjs h ! a"

definition map_assign :: "nat \<Rightarrow> string \<Rightarrow> ptr \<Rightarrow> 'a heap \<Rightarrow> 'a heap" where
  "map_assign a k v h = h\<lparr>mapObjs := (mapObjs h)[a := AList.update k v (map_at h a)]\<rparr>"

definition map_delete :: "nat \<Rightarrow> string \<Rightarrow> 'a heap \<Rightarrow> 'a heap" where
  "map_delete a k h = h\<lparr>mapObjs := (mapObjs h)[a := AList.delete k (map_at h a)]\<rparr>"

text \<open>\<^verbatim>\<open>make(map[string]*CircuitBreaker)\<close>: a new, empty map object.\<close>

definition make_map :: "'a heap \<Rightarrow> nat \<times> 'a heap" where
  "make_map h = (length (mapObjs h), h\<lparr>mapObjs := mapObjs h @ [[]]\<rparr>)"

text \<open>\<^verbatim>\<open>New(cfg)\<close> as the registry calls it: the breaker is a new object.\<close>

definition New_ptr :: "'a Config \<Rightarrow> (nat \<Rightarrow> int) \<Rightarrow> 'a heap \<Rightarrow> ptr \<times> 'a heap" where
  "New_ptr c clk h = (length (breakerObjs h), h\<lparr>breakerObjs := breakerObjs h @ [New c clk]\<rparr>)"

text \<open>
  The registry itself: the reference to its map (never reassigned after
  \<^verbatim>\<open>NewRegistry\<close>) and the default configuration.
\<close>

record 'a Registry =
  breakers :: nat
  defaultCfg :: "'a Config"

definition NewRegistry :: "'a Config \<Rightarrow> 'a heap \<Rightarrow> 'a Registry \<times> 'a heap" where
  "NewRegistry dc h =
     (let (m, h1) = make_map h
      in (\<lparr> breakers = m, defaultCfg = dc \<rparr>, h1))"

text \<open>
  \<^verbatim>\<open>Get\<close> has two critical sections: the lookup under the read lock, and, when that
  misses, the second lookup and the insertion under the write lock. \<open>Get_rlocked\<close>
  and \<open>Get_locked\<close> are the two sections; between them other callers may run.
  \<open>Get\<close> is a caller running both with nobody in between. \<open>clk\<close> is the process
  clock the new breaker gets.
\<close>

definition Get_rlocked :: "'a Registry \<Rightarrow> string \<Rightarrow> 'a heap \<Rightarrow> ptr option" where
  "Get_rlocked r name h = map_of (map_at h (breakers r)) name"

definition Get_locked ::
  "'a Registry \<Rightarrow> string \<Rightarrow> (nat \<Rightarrow> int) \<Rightarrow> 'a heap \<Rightarrow> ptr \<times> 'a heap" where
  "Get_locked r name clk h =
     (case map_of (map_at h (breakers r)) name of
        Some cb \<Rightarrow> (cb, h)
      | None \<Rightarrow>
          (let cfg0 = defaultCfg r;
               cfg1 = cfg0\<lparr>Name := name\<rparr>;
               (cb, h1) = New_ptr cfg1 clk h
           in (cb, map_assign (breakers r) name cb h1)))"

definition Get ::
  "'a Registry \<Rightarrow> string \<Rightarrow> (nat \<Rightarrow> int) \<Rightarrow> 'a heap \<Rightarrow> ptr \<times> 'a heap" where
  "Get r name clk h =
     (case Get_rlocked r name h of
        Some cb \<Rightarrow> (cb, h)
      | None \<Rightarrow> Get_locked r name clk h)"

definition GetWithConfig_locked ::
  "'a Registry \<Rightarrow> string \<Rightarrow> 'a Config \<Rightarrow> (nat \<Rightarrow> int) \<Rightarrow> 'a heap \<Rightarrow> ptr \<times> 'a heap" where
  "GetWithConfig_locked r name c clk h =
     (case map_of (map_at h (breakers r)) name of
        Some cb \<Rightarrow> (cb, h)
      | None \<Rightarrow>
          (let cfg1 = c\<lparr>Name := name\<rparr>;
               (cb, h1) = New_ptr cfg1 clk h
           in (cb, map_assign (breakers r) name cb h1)))"

definition GetWithConfig ::
  "'a Registry \<Rightarrow> string \<Rightarrow> 'a Config \<Rightarrow> (nat \<Rightarrow> int) \<Rightarrow> 'a heap \<Rightarrow> ptr \<times> 'a heap" where
  "GetWithConfig r name c clk h =
     (case Get_rlocked r name h of
        Some cb \<Rightarrow> (cb, h)
      | None \<Rightarrow> GetWithConfig_locked r name c clk h)"

text \<open>
  \<^verbatim>\<open>All\<close>: a new map object, then one assignment per entry of the registry's map (Go
  visits the entries in an order of its choosing; here it is the order of the list).
\<close>

definition All :: "'a Registry \<Rightarrow> 'a heap \<Rightarrow> nat \<times> 'a heap" where
  "All r h =
     (let (out, h1) = make_map h
      in (out, fold (\<lambda>(k, v) h'. map_assign out k v h') (map_at h1 (breakers r)) h1))"

text \<open>A sequence of registry calls, each with the clock a breaker made by it would get.\<close>

datatype 'a reg_op =
    OpGet string "nat \<Rightarrow> int"
  | OpGetWithConfig string "'a Config" "nat \<Rightarrow> int"

fun op_name :: "'a reg_op \<Rightarrow> string" where
  "op_name (OpGet name clk) = name"
| "op_name (OpGetWithConfig name c clk) = name"

fun reg_step :: "'a Registry \<Rightarrow> 'a reg_op \<Rightarrow> 'a heap \<Rightarrow> ptr \<times> 'a heap" where
  "reg_step r (OpGet name clk) h = Get r name clk h"
| "reg_step r (OpGetWithConfig name c clk) h = GetWithConfig r name c clk h"

text \<open>\<open>reg_run\<close> returns the pointers the calls returned, in order, and the final store.\<close>

fun reg_run :: "'a Registry \<Rightarrow> 'a reg_op list \<Rightarrow> 'a heap \<Rightarrow> ptr list \<times> 'a heap" where
  "reg_run r [] h = ([], h)"
| "reg_run r (c # cs) h =
     (let (p, h1) = reg_step r c h;
          (ps, h2) = reg_run r cs h1
      in (p # ps, h2))"



section \<open>Fixtures of the tests (breaker_test.go)\<close>

text \<open>
  The operations, contexts, configuration and clock the package's tests use; the
  concrete runs below are built from them. \<open>fakeClock t\<close> is the test clock standing
  at \<open>t\<close>, and \<open>advancedClock n d\<close> is the test clock at 0 that is advanced by \<open>d\<close> after
  its \<open>n\<close>-th reading. \<open>ctxErrFn\<close> is the operation of the cancellation test, which
  returns \<^verbatim>\<open>ctx.Err()\<close>.
\<close>

definition errBoom :: error where
  "errBoom = OpError ''boom''"

definition succeedFn :: "Context \<Rightarrow> string option \<times> error option" where
  "succeedFn ctx = (Some ''ok'', None)"

definition failFn :: "Context \<Rightarrow> string option \<times> error option" where
  "failFn ctx = (None, Some errBoom)"

definition ctxErrFn :: "Context \<Rightarrow> string option \<times> error option" where
  "ctxErrFn ctx = (None, Err ctx)"

definition Background :: Context where
  "Background = \<lparr> Err = None \<rparr>"

definition cancelled :: Context where
  "cancelled = \<lparr> Err = Some Canceled \<rparr>"

definition testConfig :: "string Config" where
  "testConfig =
     \<lparr> Name = ''test'', WindowSize = 10, FailureThreshold = 0.5, MinRequests = 5,
       RecoveryTimeout = 10 * Second, ProbeCount = 3, Fallback = None, OnStateChange = True \<rparr>"

definition fakeClock :: "int \<Rightarrow> nat \<Rightarrow> int" where
  "fakeClock t k = t"

definition advancedClock :: "nat \<Rightarrow> int \<Rightarrow> nat \<Rightarrow> int" where
  "advancedClock n d k = (if k < n then 0 else d)"


section \<open>Notions the statements use\<close>

text \<open>
  A call is admitted when \<^verbatim>\<open>beforeCall\<close> returns \<^verbatim>\<open>nil\<close>. An admitted call is excluded
  from the bookkeeping when \<^verbatim>\<open>Execute\<close> takes its early return: the operation
  returned an error and the context reports one. \<open>excluded_calls\<close> counts the
  excluded calls of a run, and \<open>invocations\<close> counts how often the wrapped operation
  has run.
\<close>

definition admitted :: "'a CircuitBreaker \<Rightarrow> bool" where
  "admitted cb \<longleftrightarrow> fst (beforeCall cb) = None"

definition cancellation_excluded :: "'a CircuitBreaker \<Rightarrow> 'a call \<Rightarrow> bool" where
  "cancellation_excluded cb c \<longleftrightarrow>
     admitted cb \<and> snd (snd c (fst c)) \<noteq> None \<and> Err (fst c) \<noteq> None"

fun excluded_calls :: "'a CircuitBreaker \<Rightarrow> 'a call list \<Rightarrow> nat" where
  "excluded_calls cb [] = 0"
| "excluded_calls cb (c # cs) =
     (if cancellation_excluded cb c then 1 else 0) +
     excluded_calls (snd (Execute cb (fst c) (snd c))) cs"

definition invocations :: "'a CircuitBreaker \<Rightarrow> nat" where
  "invocations cb = length (filter (\<lambda>e. e = OpInvoked) (events cb))"

text \<open>
  The invariant that ties a window to the outcomes recorded since it was made or last
  reset, \<open>os\<close>, oldest first, for a buffer of \<open>N\<close> slots: the \<open>j\<close>-th outcome sits
  in slot \<open>j mod N\<close> for as long as it is among the last \<open>N\<close>.
\<close>

definition window_inv :: "nat \<Rightarrow> outcome list \<Rightarrow> slidingWindow \<Rightarrow> bool" where
  "window_inv N os w \<longleftrightarrow>
     length (buf w) = N \<and>
     pos w = int (length os mod N) \<and>
     count w = int (min N (length os)) \<and>
     fails w = failures_in (last_n N os) \<and>
     (\<forall>j < length os. length os - N \<le> j \<longrightarrow> buf w ! (j mod N) = os ! j)"


section \<open>The sliding window holds the last outcomes\<close>

subsection \<open>One call of record\<close>

lemma last_n_snoc_short:
  "length os < N \<Longrightarrow> last_n N (os @ [o1]) = last_n N os @ [o1]"
  by (simp add: last_n_def)

lemma last_n_snoc_full:
  assumes "N \<le> length os" "0 < N"
  shows "os ! (length os - N) # last_n N (os @ [o1]) = last_n N os @ [o1]"
proof -
  have lt: "length os - N < length os" using assms by simp
  have "last_n N os = os ! (length os - N) # drop (Suc (length os - N)) os"
    unfolding last_n_def using lt by (simp add: Cons_nth_drop_Suc)
  moreover have "last_n N (os @ [o1]) = drop (Suc (length os - N)) os @ [o1]"
    unfolding last_n_def using assms by (simp add: Suc_diff_le)
  ultimately show ?thesis by simp
qed

lemma failures_in_snoc:
  "failures_in (xs @ [o1]) = failures_in xs + (if o1 = failure then 1 else 0)"
  by (simp add: failures_in_def)

lemma failures_in_Cons:
  "failures_in (x # xs) = (if x = failure then 1 else 0) + failures_in xs"
  by (simp add: failures_in_def)


lemma buf_record: "buf (record_outcome w o1) = (buf w)[nat (pos w) := o1]"
  by (simp add: record_outcome_def Let_def)

lemma pos_record: "pos (record_outcome w o1) = (pos w + 1) mod int (length (buf w))"
  by (simp add: record_outcome_def Let_def)

lemma count_record:
  "count (record_outcome w o1) = (if count w = int (length (buf w)) then count w else count w + 1)"
  by (simp add: record_outcome_def Let_def)

lemma fails_record:
  "fails (record_outcome w o1) =
     fails w - (if count w = int (length (buf w)) \<and> buf w ! nat (pos w) = failure then 1 else 0)
             + (if o1 = failure then 1 else 0)"
  by (simp add: record_outcome_def Let_def)

lemma pos_step: "(int (n mod N) + 1) mod int N = int (Suc n mod N)"
proof -
  have "int (Suc n mod N) = int (Suc (n mod N) mod N)"
    by (simp only: mod_Suc_eq)
  also have "\<dots> = (int (n mod N) + 1) mod int N"
    by (simp only: zmod_int of_nat_Suc add.commute)
  finally show ?thesis by simp
qed

lemma window_inv_new: "0 < size0 \<Longrightarrow> window_inv (nat size0) [] (newSlidingWindow size0)"
  by (simp add: window_inv_def newSlidingWindow_def failures_in_def last_n_def)

lemma window_inv_record:
  assumes inv: "window_inv N os w" and N: "0 < N"
  shows "window_inv N (os @ [o1]) (record_outcome w o1)"
proof (cases "length os < N")
  case True
  then have cnt: "count w \<noteq> int (length (buf w))"
    using inv by (simp add: window_inv_def)
  have p: "nat (pos w) = length os" using inv True by (simp add: window_inv_def)
  have "fails (record_outcome w o1) = failures_in (last_n N (os @ [o1]))"
    using inv True cnt
    by (simp add: fails_record window_inv_def last_n_snoc_short failures_in_snoc)
  moreover have "pos (record_outcome w o1) = int (length (os @ [o1]) mod N)"
    using inv N pos_step[of "length os" N]
    by (simp add: pos_record window_inv_def)
  moreover have "count (record_outcome w o1) = int (min N (length (os @ [o1])))"
    using inv True cnt by (simp add: count_record window_inv_def)
  moreover have "length (buf (record_outcome w o1)) = N"
    using inv by (simp add: buf_record window_inv_def)
  moreover have "\<forall>j < length (os @ [o1]). length (os @ [o1]) - N \<le> j \<longrightarrow>
      buf (record_outcome w o1) ! (j mod N) = (os @ [o1]) ! j"
  proof (intro allI impI)
    fix j assume j: "j < length (os @ [o1])" and "length (os @ [o1]) - N \<le> j"
    have b: "buf (record_outcome w o1) = (buf w)[length os := o1]"
      using p by (simp add: buf_record)
    have len: "length (buf w) = N" using inv by (simp add: window_inv_def)
    show "buf (record_outcome w o1) ! (j mod N) = (os @ [o1]) ! j"
    proof (cases "j = length os")
      case True
      then show ?thesis using b len \<open>length os < N\<close> by simp
    next
      case False
      then have jl: "j < length os" using j by simp
      then have "buf w ! (j mod N) = os ! j"
        using inv \<open>length os < N\<close> by (simp add: window_inv_def)
      then show ?thesis using b jl \<open>length os < N\<close> by (simp add: nth_append)
    qed
  qed
  ultimately show ?thesis unfolding window_inv_def by (intro conjI)
next
  case False
  then have full: "N \<le> length os" by simp
  have len: "length (buf w) = N" using inv by (simp add: window_inv_def)
  have cnt: "count w = int (length (buf w))"
    using inv full by (simp add: window_inv_def)
  have p: "nat (pos w) = length os mod N" using inv by (simp add: window_inv_def)
  have lt: "length os - N < length os" using full N by simp
  have modeq: "(length os - N) mod N = length os mod N"
    using full by (simp add: le_mod_geq)
  have slots: "\<forall>j < length os. length os - N \<le> j \<longrightarrow> buf w ! (j mod N) = os ! j"
    using inv by (simp add: window_inv_def)
  have "buf w ! ((length os - N) mod N) = os ! (length os - N)"
    using slots lt by blast
  then have old: "buf w ! nat (pos w) = os ! (length os - N)"
    using modeq p by simp
  have fl: "fails w = failures_in (last_n N os)" using inv by (simp add: window_inv_def)
  have "failures_in (os ! (length os - N) # last_n N (os @ [o1])) = failures_in (last_n N os @ [o1])"
    using last_n_snoc_full[OF full N] by simp
  then have "fails (record_outcome w o1) = failures_in (last_n N (os @ [o1]))"
    using cnt old fl
    by (simp add: fails_record failures_in_snoc failures_in_Cons split: if_splits)
  moreover have "pos (record_outcome w o1) = int (length (os @ [o1]) mod N)"
    using inv N pos_step[of "length os" N]
    by (simp add: pos_record window_inv_def)
  moreover have "count (record_outcome w o1) = int (min N (length (os @ [o1])))"
    using inv full cnt by (simp add: count_record window_inv_def)
  moreover have "length (buf (record_outcome w o1)) = N"
    using inv by (simp add: buf_record window_inv_def)
  moreover have "\<forall>j < length (os @ [o1]). length (os @ [o1]) - N \<le> j \<longrightarrow>
      buf (record_outcome w o1) ! (j mod N) = (os @ [o1]) ! j"
  proof (intro allI impI)
    fix j assume j: "j < length (os @ [o1])" and lo: "length (os @ [o1]) - N \<le> j"
    have b: "buf (record_outcome w o1) = (buf w)[length os mod N := o1]"
      using p by (simp add: buf_record)
    have ml: "length os mod N < N" using N by simp
    show "buf (record_outcome w o1) ! (j mod N) = (os @ [o1]) ! j"
    proof (cases "j = length os")
      case True
      then show ?thesis using b len ml by simp
    next
      case False
      then have jl: "j < length os" using j by simp
      have lo': "length os - N < j" using lo full N by simp
      then have lo'': "length os - N \<le> j" by simp
      have e: "buf w ! (j mod N) = os ! j"
        using inv jl lo'' by (simp add: window_inv_def)
      have "j mod N \<noteq> length os mod N"
      proof
        assume eq: "j mod N = length os mod N"
        have "N dvd length os - j"
          using eq[symmetric] jl mod_eq_dvd_iff_nat[of j "length os" N] by simp
        then have "(length os - j) mod N = 0" by simp
        moreover have "0 < length os - j" "length os - j < N" using jl lo' full by auto
        ultimately show False by simp
      qed
      then show ?thesis using b e jl by (simp add: nth_append)
    qed
  qed
  ultimately show ?thesis unfolding window_inv_def by (intro conjI)
qed

lemma window_inv_reset:
  "window_inv N os w \<Longrightarrow> window_inv N [] (reset w)"
  by (simp add: window_inv_def reset_def failures_in_def last_n_def)

lemma window_inv_record_all:
  "0 < N \<Longrightarrow> window_inv N os w \<Longrightarrow> window_inv N (os @ os') (record_all w os')"
proof (induction os' arbitrary: os w)
  case Nil
  then show ?case by (simp add: record_all_def)
next
  case (Cons o1 os')
  have "window_inv N (os @ [o1]) (record_outcome w o1)"
    using Cons.prems by (simp add: window_inv_record)
  then have "window_inv N ((os @ [o1]) @ os') (record_all (record_outcome w o1) os')"
    using Cons.IH Cons.prems(1) by blast
  then show ?case by (simp add: record_all_def)
qed

lemma failures_in_bounds: "0 \<le> failures_in xs \<and> failures_in xs \<le> int (length xs)"
  by (simp add: failures_in_def)

lemma length_last_n: "length (last_n k os) = min k (length os)"
  by (simp add: last_n_def)

lemma last_n_min: "last_n (min N (length os)) os = last_n N os"
  by (simp add: last_n_def min_def)

lemma window_inv_bounds:
  assumes "window_inv N os w"
  shows "0 \<le> fails w" and "fails w \<le> count w" and "count w \<le> int (length (buf w))"
    and "0 \<le> pos w" and "0 < N \<Longrightarrow> pos w < int (length (buf w))"
proof -
  have f: "fails w = failures_in (last_n N os)" and c: "count w = int (min N (length os))"
    and l: "length (buf w) = N" and p: "pos w = int (length os mod N)"
    using assms by (simp_all add: window_inv_def)
  show "0 \<le> fails w" using f failures_in_bounds by simp
  show "fails w \<le> count w"
    using f c failures_in_bounds[of "last_n N os"] by (simp add: length_last_n)
  show "count w \<le> int (length (buf w))" using c l by simp
  show "0 \<le> pos w" using p by simp
  show "0 < N \<Longrightarrow> pos w < int (length (buf w))" using p l by simp
qed

subsection \<open>Sequences of record calls\<close>

text \<open>
  Claim C3. For every capacity \<open>size0 \<ge> 1\<close> and every sequence \<open>os\<close> of \<^verbatim>\<open>record\<close>
  calls on a fresh window, with \<open>k = min size0 (length os)\<close>: \<^verbatim>\<open>total()\<close> is \<open>k\<close>;
  \<^verbatim>\<open>failureRate()\<close> is the number of failures among the last \<open>k\<close> outcomes divided by
  \<open>k\<close>, and 0 when nothing was recorded; and \<open>0 \<le> fails \<le> count \<le> capacity\<close>.
\<close>

theorem sliding_window_tracks_last_outcomes:
  assumes "1 \<le> size0"
  shows "let w = record_all (newSlidingWindow size0) os;
             k = min (nat size0) (length os)
         in total w = int k \<and>
            failureRate w =
              (if k = 0 then 0 else real_of_int (failures_in (last_n k os)) / real k) \<and>
            fails w = failures_in (last_n k os) \<and>
            count w = int k \<and>
            length (buf w) = nat size0 \<and>
            0 \<le> fails w \<and> fails w \<le> count w \<and> count w \<le> int (length (buf w))"
proof -
  define w where "w = record_all (newSlidingWindow size0) os"
  define k where "k = min (nat size0) (length os)"
  have N: "0 < nat size0" using assms by simp
  have "window_inv (nat size0) [] (newSlidingWindow size0)"
    using assms by (simp add: window_inv_new)
  then have inv: "window_inv (nat size0) os w"
    using window_inv_record_all[OF N, of "[]" "newSlidingWindow size0" os] by (simp add: w_def)
  have c: "count w = int k" using inv by (simp add: window_inv_def k_def)
  have f: "fails w = failures_in (last_n k os)"
    using inv by (simp add: window_inv_def k_def last_n_min)
  have l: "length (buf w) = nat size0" using inv by (simp add: window_inv_def)
  have r: "failureRate w = (if k = 0 then 0 else real_of_int (failures_in (last_n k os)) / real k)"
    using c f by (simp add: failureRate_def)
  have "total w = int k" using c by (simp add: total_def)
  then show ?thesis
    using r f c l window_inv_bounds(1-3)[OF inv] by (simp add: w_def k_def Let_def)
qed

theorem sliding_window_tracks_last_outcomes_witness:
  "(1::int) \<le> 3 \<and>
   (let w = record_all (newSlidingWindow 3) [failure, failure, success, success]
    in total w = 3 \<and> failureRate w = 1 / 3 \<and> fails w = 1 \<and> count w = 3 \<and>
       length (buf w) = 3 \<and> buf w = [success, failure, success])"
  using sliding_window_tracks_last_outcomes [of 3 "[failure, failure, success, success]"]
  by (simp add: Let_def last_n_def failures_in_def record_all_def record_outcome_def
      newSlidingWindow_def numeral_3_eq_3)


section \<open>The breaker, operation by operation\<close>

subsection \<open>setState and beforeCall\<close>

lemma setState_same: "state cb = to0 \<Longrightarrow> setState cb to0 = cb"
  by (simp add: setState_def)

lemma setState_fields:
  "state (setState cb to0) = to0"
  "window (setState cb to0) = window cb"
  "cfg (setState cb to0) = cfg cb"
  "openedAt (setState cb to0) = openedAt cb"
  "probeSuccesses (setState cb to0) = probeSuccesses cb"
  "totalRequests (setState cb to0) = totalRequests cb"
  "totalSuccesses (setState cb to0) = totalSuccesses cb"
  "totalFailures (setState cb to0) = totalFailures cb"
  "now (setState cb to0) = now cb"
  by (simp_all add: setState_def readClock_def Let_def)

lemma setState_changed:
  "state cb \<noteq> to0 \<Longrightarrow>
     lastStateChange (setState cb to0) = now cb (nowCalls cb) \<and>
     nowCalls (setState cb to0) = Suc (nowCalls cb) \<and>
     events (setState cb to0) =
       events cb @ SlogWarn (Name (cfg cb)) (state cb) to0 #
         (if OnStateChange (cfg cb) then [HookCalled (Name (cfg cb)) (state cb) to0] else [])"
  by (simp add: setState_def readClock_def Let_def)

lemma beforeCall_totalRequests:
  "beforeCall (cb\<lparr>totalRequests := n\<rparr>) =
     (fst (beforeCall cb), (snd (beforeCall cb))\<lparr>totalRequests := n\<rparr>)"
  by (cases "state cb")
     (simp_all add: beforeCall_def readClock_def setState_def Let_def)

lemma beforeCall_fields:
  "window (snd (beforeCall cb)) = window cb"
  "cfg (snd (beforeCall cb)) = cfg cb"
  "openedAt (snd (beforeCall cb)) = openedAt cb"
  "probeSuccesses (snd (beforeCall cb)) = probeSuccesses cb"
  "totalRequests (snd (beforeCall cb)) = totalRequests cb"
  "totalSuccesses (snd (beforeCall cb)) = totalSuccesses cb"
  "totalFailures (snd (beforeCall cb)) = totalFailures cb"
  "now (snd (beforeCall cb)) = now cb"
  by (cases "state cb"; simp add: beforeCall_def readClock_def setState_fields Let_def)+

lemma beforeCall_rejects_iff:
  "fst (beforeCall cb) \<noteq> None \<longleftrightarrow>
     state cb = StateOpen \<and> now cb (nowCalls cb) - openedAt cb < RecoveryTimeout (cfg cb)"
  by (cases "state cb") (auto simp: beforeCall_def readClock_def Let_def)

lemma beforeCall_rejection: "fst (beforeCall cb) = Some e \<Longrightarrow> e = ErrCircuitOpen"
  by (cases "state cb") (auto simp: beforeCall_def readClock_def Let_def split: if_splits)

lemma beforeCall_rejected_state:
  "fst (beforeCall cb) = Some e \<Longrightarrow>
     snd (beforeCall cb) = cb\<lparr>nowCalls := Suc (nowCalls cb)\<rparr>"
  by (cases "state cb") (auto simp: beforeCall_def readClock_def Let_def split: if_splits)

lemma beforeCall_admitted_state:
  "fst (beforeCall cb) = None \<Longrightarrow>
     state (snd (beforeCall cb)) = (if state cb = StateOpen then StateHalfOpen else state cb)"
  by (cases "state cb") (auto simp: beforeCall_def readClock_def setState_fields Let_def split: if_splits)

lemma beforeCall_Closed: "state cb = StateClosed \<Longrightarrow> beforeCall cb = (None, cb)"
  by (simp add: beforeCall_def)

lemma beforeCall_HalfOpen: "state cb = StateHalfOpen \<Longrightarrow> beforeCall cb = (None, cb)"
  by (simp add: beforeCall_def)

lemma afterCall_fields:
  "cfg (afterCall cb err) = cfg cb"
  "totalRequests (afterCall cb err) = totalRequests cb"
  "totalSuccesses (afterCall cb err) = totalSuccesses cb"
  "totalFailures (afterCall cb err) = totalFailures cb"
  "now (afterCall cb err) = now cb"
  by (cases "state cb"; simp add: afterCall_def readClock_def setState_fields Let_def)+

subsection \<open>The three ways through Execute\<close>

text \<open>
  A call is rejected, or admitted and excluded from the bookkeeping, or admitted and
  recorded.
\<close>

lemma Execute_rejected:
  assumes "fst (beforeCall cb) = Some e"
  shows "Execute cb ctx fn =
     (case Fallback (cfg cb) of
        Some fb \<Rightarrow> (fb ctx e, (snd (beforeCall cb))
                       \<lparr>totalRequests := totalRequests cb + 1,
                        totalFailures := totalFailures cb + 1,
                        events := events cb @ [FallbackInvoked e]\<rparr>)
      | None \<Rightarrow> ((None, Some e), (snd (beforeCall cb))
                       \<lparr>totalRequests := totalRequests cb + 1,
                        totalFailures := totalFailures cb + 1\<rparr>))"
  using assms beforeCall_rejected_state[OF assms]
  by (simp add: Execute_def beforeCall_totalRequests Let_def split: option.splits)

lemma Execute_excluded:
  assumes "fst (beforeCall cb) = None" "snd (fn ctx) \<noteq> None" "Err ctx \<noteq> None"
  shows "Execute cb ctx fn =
     (fn ctx, (snd (beforeCall cb))
                \<lparr>totalRequests := totalRequests cb + 1,
                 events := events (snd (beforeCall cb)) @ [OpInvoked]\<rparr>)"
  using assms
  by (cases "fn ctx") (auto simp add: Execute_def beforeCall_totalRequests Let_def)

lemma Execute_recorded:
  assumes "fst (beforeCall cb) = None" "snd (fn ctx) = None \<or> Err ctx = None"
  shows "Execute cb ctx fn =
     (fn ctx,
      (let cb4 = afterCall ((snd (beforeCall cb))
                   \<lparr>totalRequests := totalRequests cb + 1,
                    events := events (snd (beforeCall cb)) @ [OpInvoked]\<rparr>) (snd (fn ctx))
       in if snd (fn ctx) \<noteq> None
          then cb4\<lparr>totalFailures := totalFailures cb4 + 1\<rparr>
          else cb4\<lparr>totalSuccesses := totalSuccesses cb4 + 1\<rparr>))"
  using assms
  by (cases "fn ctx") (auto simp add: Execute_def beforeCall_totalRequests Let_def)

lemma Execute_counters:
  "totalRequests (snd (Execute cb ctx fn)) = totalRequests cb + 1 \<and>
   totalSuccesses (snd (Execute cb ctx fn)) =
     totalSuccesses cb + (if admitted cb \<and> snd (fn ctx) = None then 1 else 0) \<and>
   totalFailures (snd (Execute cb ctx fn)) =
     totalFailures cb +
       (if \<not> admitted cb \<or> (snd (fn ctx) \<noteq> None \<and> Err ctx = None) then 1 else 0)"
proof (cases "fst (beforeCall cb)")
  case (Some e)
  then show ?thesis
    by (simp add: Execute_rejected admitted_def beforeCall_fields split: option.splits)
next
  case None
  show ?thesis
  proof (cases "snd (fn ctx) \<noteq> None \<and> Err ctx \<noteq> None")
    case True
    then show ?thesis
      using None by (simp add: Execute_excluded admitted_def beforeCall_fields)
  next
    case False
    then have "snd (fn ctx) = None \<or> Err ctx = None" by blast
    then show ?thesis
      using None False
      by (auto simp add: Execute_recorded[OF None] admitted_def beforeCall_fields afterCall_fields Let_def)
  qed
qed

lemma run_counters:
  "totalRequests (run cb cs) = totalRequests cb + int (length cs) \<and>
   totalSuccesses (run cb cs) + totalFailures (run cb cs) + int (excluded_calls cb cs) =
     totalSuccesses cb + totalFailures cb + int (length cs)"
proof (induction cs arbitrary: cb)
  case Nil
  show ?case by simp
next
  case (Cons c cs)
  obtain ctx fn where c: "c = (ctx, fn)" by (cases c)
  define cb' where "cb' = snd (Execute cb ctx fn)"
  have step: "totalRequests cb' = totalRequests cb + 1"
    "totalSuccesses cb' + totalFailures cb' + (if cancellation_excluded cb c then 1 else 0)
       = totalSuccesses cb + totalFailures cb + 1"
    using Execute_counters[of cb ctx fn]
    by (auto simp: cb'_def c cancellation_excluded_def)
  show ?case
    using Cons.IH[of cb'] step
    by (cases "cancellation_excluded cb c") (simp_all add: c cb'_def[symmetric])
qed

subsection \<open>Invocations of the wrapped operation\<close>

lemma invocations_updates:
  "invocations (cb\<lparr>totalRequests := a\<rparr>) = invocations cb"
  "invocations (cb\<lparr>totalFailures := a\<rparr>) = invocations cb"
  "invocations (cb\<lparr>totalSuccesses := a\<rparr>) = invocations cb"
  "invocations (cb\<lparr>events := events cb2 @ [OpInvoked]\<rparr>) = Suc (invocations cb2)"
  by (simp_all add: invocations_def)

lemma invocations_afterCall: "invocations (afterCall cb err) = invocations cb"
  by (cases "state cb")
     (simp_all add: afterCall_def readClock_def Let_def setState_def invocations_def)

subsection \<open>The open breaker\<close>

lemma Execute_rejected_state:
  assumes "state cb = StateOpen"
    and "now cb (nowCalls cb) - openedAt cb < RecoveryTimeout (cfg cb)"
  shows "fst (beforeCall cb) = Some ErrCircuitOpen"
    and "fst (Execute cb ctx fn) =
           (case Fallback (cfg cb) of Some fb \<Rightarrow> fb ctx ErrCircuitOpen
            | None \<Rightarrow> (None, Some ErrCircuitOpen))"
    and "state (snd (Execute cb ctx fn)) = StateOpen"
    and "openedAt (snd (Execute cb ctx fn)) = openedAt cb"
    and "nowCalls (snd (Execute cb ctx fn)) = Suc (nowCalls cb)"
    and "now (snd (Execute cb ctx fn)) = now cb"
    and "cfg (snd (Execute cb ctx fn)) = cfg cb"
    and "window (snd (Execute cb ctx fn)) = window cb"
    and "invocations (snd (Execute cb ctx fn)) = invocations cb"
    and "lastStateChange (snd (Execute cb ctx fn)) = lastStateChange cb"
proof -
  show b: "fst (beforeCall cb) = Some ErrCircuitOpen"
    using assms by (simp add: beforeCall_def readClock_def Let_def)
  note ex = Execute_rejected[OF b, of ctx fn] beforeCall_rejected_state[OF b]
  show "fst (Execute cb ctx fn) =
           (case Fallback (cfg cb) of Some fb \<Rightarrow> fb ctx ErrCircuitOpen
            | None \<Rightarrow> (None, Some ErrCircuitOpen))"
    using ex by (simp split: option.splits)
  show "state (snd (Execute cb ctx fn)) = StateOpen"
    using ex assms(1) by (simp split: option.splits)
  show "openedAt (snd (Execute cb ctx fn)) = openedAt cb"
    using ex by (simp split: option.splits)
  show "nowCalls (snd (Execute cb ctx fn)) = Suc (nowCalls cb)"
    using ex by (simp split: option.splits)
  show "now (snd (Execute cb ctx fn)) = now cb"
    using ex by (simp split: option.splits)
  show "cfg (snd (Execute cb ctx fn)) = cfg cb"
    using ex by (simp split: option.splits)
  show "window (snd (Execute cb ctx fn)) = window cb"
    using ex by (simp split: option.splits)
  show "invocations (snd (Execute cb ctx fn)) = invocations cb"
    using ex by (simp add: invocations_def split: option.splits)
  show "lastStateChange (snd (Execute cb ctx fn)) = lastStateChange cb"
    using ex by (simp split: option.splits)
qed

lemma run_rejected:
  assumes "state cb = StateOpen"
    and "\<forall>k. nowCalls cb \<le> k \<and> k < nowCalls cb + length rs \<longrightarrow>
           now cb k - openedAt cb < RecoveryTimeout (cfg cb)"
  shows "state (run cb rs) = StateOpen \<and> openedAt (run cb rs) = openedAt cb \<and>
         nowCalls (run cb rs) = nowCalls cb + length rs \<and> now (run cb rs) = now cb \<and>
         cfg (run cb rs) = cfg cb \<and> window (run cb rs) = window cb \<and>
         invocations (run cb rs) = invocations cb \<and>
         lastStateChange (run cb rs) = lastStateChange cb"
  using assms
proof (induction rs arbitrary: cb)
  case Nil
  show ?case using Nil.prems(1) by simp
next
  case (Cons r rs)
  have first: "now cb (nowCalls cb) - openedAt cb < RecoveryTimeout (cfg cb)"
    using Cons.prems(2) by simp
  note st = Execute_rejected_state(2-10)[OF Cons.prems(1) first, of "fst r" "snd r"]
  define cb' where "cb' = snd (Execute cb (fst r) (snd r))"
  have "\<forall>k. nowCalls cb' \<le> k \<and> k < nowCalls cb' + length rs \<longrightarrow>
           now cb' k - openedAt cb' < RecoveryTimeout (cfg cb')"
    using Cons.prems(2) st by (simp add: cb'_def)
  then have "state (run cb' rs) = StateOpen \<and> openedAt (run cb' rs) = openedAt cb' \<and>
         nowCalls (run cb' rs) = nowCalls cb' + length rs \<and> now (run cb' rs) = now cb' \<and>
         cfg (run cb' rs) = cfg cb' \<and> window (run cb' rs) = window cb' \<and>
         invocations (run cb' rs) = invocations cb' \<and>
         lastStateChange (run cb' rs) = lastStateChange cb'"
    using Cons.IH[of cb'] st(2) by (simp add: cb'_def)
  then show ?case using st by (simp add: cb'_def)
qed

lemma admitted_after_timeout:
  assumes "state cb = StateOpen"
    and "now cb (nowCalls cb) - openedAt cb \<ge> RecoveryTimeout (cfg cb)"
  shows "fst (beforeCall cb) = None"
    and "state (snd (beforeCall cb)) = StateHalfOpen"
    and "fst (State cb) = StateHalfOpen"
    and "state (snd (State cb)) = StateHalfOpen"
    and "invocations (snd (Execute cb ctx fn)) = Suc (invocations cb)"
    and "fst (Execute cb ctx fn) = fn ctx"
proof -
  show b: "fst (beforeCall cb) = None"
    using assms by (simp add: beforeCall_def readClock_def Let_def)
  show h: "state (snd (beforeCall cb)) = StateHalfOpen"
    using assms by (simp add: beforeCall_def readClock_def Let_def setState_fields)
  show "fst (State cb) = StateHalfOpen"
    using assms by (simp add: State_def readClock_def Let_def setState_fields)
  show "state (snd (State cb)) = StateHalfOpen"
    using assms by (simp add: State_def readClock_def Let_def setState_fields)
  have ev: "invocations (snd (beforeCall cb)) = invocations cb"
    using assms
    by (simp add: beforeCall_def readClock_def Let_def setState_def invocations_def)
  show "invocations (snd (Execute cb ctx fn)) = Suc (invocations cb)"
  proof (cases "snd (fn ctx) \<noteq> None \<and> Err ctx \<noteq> None")
    case True
    then show ?thesis
      using ev by (simp add: Execute_excluded[where cb = cb and fn = fn and ctx = ctx, OF b] invocations_updates)
  next
    case False
    then have r: "snd (fn ctx) = None \<or> Err ctx = None" by blast
    show ?thesis
      using ev
      by (simp add: Execute_recorded[where cb = cb and fn = fn and ctx = ctx, OF b r] Let_def
          invocations_updates invocations_afterCall)
  qed
  show "fst (Execute cb ctx fn) = fn ctx"
  proof (cases "snd (fn ctx) \<noteq> None \<and> Err ctx \<noteq> None")
    case True
    then show ?thesis by (simp add: Execute_excluded[where cb = cb and fn = fn and ctx = ctx, OF b])
  next
    case False
    then have r: "snd (fn ctx) = None \<or> Err ctx = None" by blast
    show ?thesis by (simp add: Execute_recorded[where cb = cb and fn = fn and ctx = ctx, OF b r])
  qed
qed

subsection \<open>Evaluating concrete runs\<close>

lemmas eval_defs =
  Execute_def beforeCall_def afterCall_def setState_def readClock_def New_def withDefaults_def
  testConfig_def fakeClock_def Background_def cancelled_def failFn_def succeedFn_def ctxErrFn_def errBoom_def
  newSlidingWindow_def record_outcome_def total_def failureRate_def reset_def Let_def Second_def
  Metrics_def State_def admitted_def cancellation_excluded_def


section \<open>Tripping, rejecting, probing\<close>

lemma five_elems: "length cs = 5 \<Longrightarrow> \<exists>a b c d e. cs = [a, b, c, d, e]"
  by (auto simp: numeral_eq_Suc length_Suc_conv)

lemma five_failures_trip:
  fixes c :: "'a Config"
  assumes "WindowSize c = 10" "FailureThreshold c = 1/2" "MinRequests c = 5"
    and "length cs = 5"
    and "\<forall>call \<in> set cs. snd (snd call (fst call)) \<noteq> None \<and> Err (fst call) = None"
  shows "state (run (New c clk) cs) = StateOpen \<and>
         openedAt (run (New c clk) cs) = clk 2 \<and>
         lastStateChange (run (New c clk) cs) = clk 1 \<and>
         nowCalls (run (New c clk) cs) = 3 \<and>
         now (run (New c clk) cs) = clk \<and>
         cfg (run (New c clk) cs) = withDefaults c \<and>
         invocations (run (New c clk) cs) = 5 \<and>
         failureRate (window (run (New c clk) cs)) = 1"
proof -
  obtain c1 c2 c3 c4 c5 where cs: "cs = [c1, c2, c3, c4, c5]"
    using five_elems[OF assms(4)] by blast
  have wd: "WindowSize (withDefaults c) = 10" "FailureThreshold (withDefaults c) = 1/2"
    "MinRequests (withDefaults c) = 5"
    using assms(1-3) by (simp_all add: withDefaults_def Let_def)
  show ?thesis
    using assms(5) wd unfolding cs
    by (simp add: Execute_def beforeCall_def afterCall_def setState_def readClock_def New_def
        newSlidingWindow_def record_outcome_def total_def failureRate_def Let_def split_beta
        invocations_def numeral_2_eq_2 numeral_3_eq_3)
qed


section \<open>Self-transitions\<close>

text \<open>
  Claim C8. No self-transition fires: when the admission check, the recording of an
  outcome or the state query leaves the state as it was, no event happened (so the
  transition hook was not called and nothing was logged) and \<^verbatim>\<open>lastStateChange\<close> is
  unchanged; and \<^verbatim>\<open>setState\<close> to the current state changes nothing at all.
\<close>

theorem no_self_transition:
  "(state (snd (beforeCall cb)) = state cb \<longrightarrow>
      events (snd (beforeCall cb)) = events cb \<and>
      lastStateChange (snd (beforeCall cb)) = lastStateChange cb) \<and>
   (state (afterCall cb err) = state cb \<longrightarrow>
      events (afterCall cb err) = events cb \<and>
      lastStateChange (afterCall cb err) = lastStateChange cb) \<and>
   (state (snd (State cb)) = state cb \<longrightarrow>
      events (snd (State cb)) = events cb \<and>
      lastStateChange (snd (State cb)) = lastStateChange cb) \<and>
   (state cb = to0 \<longrightarrow> setState cb to0 = cb)"
proof (intro conjI impI)
  assume "state (snd (beforeCall cb)) = state cb"
  then show "events (snd (beforeCall cb)) = events cb"
    by (cases "state cb") (auto simp: beforeCall_def readClock_def setState_fields Let_def split: if_splits)
next
  assume "state (snd (beforeCall cb)) = state cb"
  then show "lastStateChange (snd (beforeCall cb)) = lastStateChange cb"
    by (cases "state cb") (auto simp: beforeCall_def readClock_def setState_fields Let_def split: if_splits)
next
  assume "state (afterCall cb err) = state cb"
  then show "events (afterCall cb err) = events cb"
    by (cases "state cb") (auto simp: afterCall_def readClock_def setState_fields Let_def split: if_splits)
next
  assume "state (afterCall cb err) = state cb"
  then show "lastStateChange (afterCall cb err) = lastStateChange cb"
    by (cases "state cb") (auto simp: afterCall_def readClock_def setState_fields Let_def split: if_splits)
next
  assume "state (snd (State cb)) = state cb"
  then show "events (snd (State cb)) = events cb"
    by (cases "state cb") (auto simp: State_def readClock_def setState_fields Let_def split: if_splits)
next
  assume "state (snd (State cb)) = state cb"
  then show "lastStateChange (snd (State cb)) = lastStateChange cb"
    by (cases "state cb") (auto simp: State_def readClock_def setState_fields Let_def split: if_splits)
next
  assume "state cb = to0"
  then show "setState cb to0 = cb" by (rule setState_same)
qed


section \<open>The lifetime counters\<close>

text \<open>
  Claim C10. In the metrics after any run of \<^verbatim>\<open>Execute\<close> calls on a new breaker,
  \<open>TotalRequests\<close> is the number of calls and exceeds
  \<open>TotalSuccesses + TotalFailures\<close> by exactly the number of excluded calls, so the
  sum is at most \<open>TotalRequests\<close> and strictly less exactly when some call was
  excluded. Call by call: every call adds one request; a rejected call adds one failure,
  also when the fallback supplies the result; an excluded call adds neither a success
  nor a failure; every other call adds one of the two.
\<close>

theorem lifetime_counters:
  "(let m = Metrics (run (New c clk) cs);
        x = int (excluded_calls (New c clk) cs)
    in TotalRequests m = int (length cs) \<and>
       TotalSuccesses m + TotalFailures m + x = TotalRequests m \<and>
       TotalSuccesses m + TotalFailures m \<le> TotalRequests m \<and>
       (TotalSuccesses m + TotalFailures m < TotalRequests m \<longleftrightarrow> 0 < x)) \<and>
   (let cb' = snd (Execute cb ctx fn)
    in totalRequests cb' = totalRequests cb + 1 \<and>
       (\<not> admitted cb \<longrightarrow>
          totalFailures cb' = totalFailures cb + 1 \<and>
          totalSuccesses cb' = totalSuccesses cb \<and>
          (\<forall>fb. Fallback (cfg cb) = Some fb \<longrightarrow>
             fst (Execute cb ctx fn) = fb ctx ErrCircuitOpen)) \<and>
       (cancellation_excluded cb (ctx, fn) \<longrightarrow>
          totalFailures cb' = totalFailures cb \<and>
          totalSuccesses cb' = totalSuccesses cb) \<and>
       (admitted cb \<and> \<not> cancellation_excluded cb (ctx, fn) \<longrightarrow>
          (if snd (fn ctx) \<noteq> None
           then totalFailures cb' = totalFailures cb + 1 \<and>
                totalSuccesses cb' = totalSuccesses cb
           else totalSuccesses cb' = totalSuccesses cb + 1 \<and>
                totalFailures cb' = totalFailures cb)))"
proof -
  have fresh: "totalRequests (New c clk) = 0" "totalSuccesses (New c clk) = 0"
    "totalFailures (New c clk) = 0"
    by (simp_all add: New_def Let_def)
  have part1: "let m = Metrics (run (New c clk) cs);
        x = int (excluded_calls (New c clk) cs)
    in TotalRequests m = int (length cs) \<and>
       TotalSuccesses m + TotalFailures m + x = TotalRequests m \<and>
       TotalSuccesses m + TotalFailures m \<le> TotalRequests m \<and>
       (TotalSuccesses m + TotalFailures m < TotalRequests m \<longleftrightarrow> 0 < x)"
    using run_counters[of "New c clk" cs] fresh
    by (auto simp add: Metrics_def Let_def)
  have fb: "\<not> admitted cb \<Longrightarrow> Fallback (cfg cb) = Some fb \<Longrightarrow>
      fst (Execute cb ctx fn) = fb ctx ErrCircuitOpen" for fb
  proof -
    assume a: "\<not> admitted cb" and f: "Fallback (cfg cb) = Some fb"
    from a obtain e where e: "fst (beforeCall cb) = Some e"
      by (auto simp: admitted_def)
    then have "e = ErrCircuitOpen" by (rule beforeCall_rejection)
    then show ?thesis using Execute_rejected[OF e, of ctx fn] f by simp
  qed
  have part2: "let cb' = snd (Execute cb ctx fn)
    in totalRequests cb' = totalRequests cb + 1 \<and>
       (\<not> admitted cb \<longrightarrow>
          totalFailures cb' = totalFailures cb + 1 \<and>
          totalSuccesses cb' = totalSuccesses cb \<and>
          (\<forall>fb. Fallback (cfg cb) = Some fb \<longrightarrow>
             fst (Execute cb ctx fn) = fb ctx ErrCircuitOpen)) \<and>
       (cancellation_excluded cb (ctx, fn) \<longrightarrow>
          totalFailures cb' = totalFailures cb \<and>
          totalSuccesses cb' = totalSuccesses cb) \<and>
       (admitted cb \<and> \<not> cancellation_excluded cb (ctx, fn) \<longrightarrow>
          (if snd (fn ctx) \<noteq> None
           then totalFailures cb' = totalFailures cb + 1 \<and>
                totalSuccesses cb' = totalSuccesses cb
           else totalSuccesses cb' = totalSuccesses cb + 1 \<and>
                totalFailures cb' = totalFailures cb))"
    using Execute_counters[of cb ctx fn] fb
    by (auto simp: Let_def cancellation_excluded_def)
  show ?thesis using part1 part2 by (rule conjI)
qed

theorem lifetime_counters_witness:
  "(let cs = (cancelled, ctxErrFn) # replicate 5 (Background, failFn) @ [(Background, succeedFn)];
        m = Metrics (run (New testConfig (fakeClock 0)) cs)
    in TotalRequests m = 7 \<and> TotalSuccesses m = 0 \<and> TotalFailures m = 6 \<and>
       excluded_calls (New testConfig (fakeClock 0)) cs = 1 \<and>
       TotalSuccesses m + TotalFailures m < TotalRequests m) \<and>
   (let cb = run (New testConfig (fakeClock 0)) (replicate 5 (Background, failFn));
        cb' = snd (Execute cb Background succeedFn)
    in \<not> admitted cb \<and> totalFailures cb = 5 \<and> totalFailures cb' = 6 \<and>
       totalSuccesses cb' = 0 \<and> totalRequests cb' = 6)"
  using lifetime_counters
    [of testConfig "fakeClock 0"
        "(cancelled, ctxErrFn) # replicate 5 (Background, failFn) @ [(Background, succeedFn)]"
        "run (New testConfig (fakeClock 0)) (replicate 5 (Background, failFn))"
        Background succeedFn]
  by (simp add: numeral_eq_Suc eval_defs)

end
